theory Spec2Isabelle
  imports Main
begin

section \<open>Strings\<close>

text \<open>
  A string of the program is a list of characters. Within the ASCII range a character is
  one code unit of the program's string, and the character classes, the case mapping and
  the white space test below are those of ECMAScript there: \<open>trim\<close> strips tab, line
  feed, vertical tab, form feed, carriage return and space, \<open>toLowerCase\<close> and
  \<open>toUpperCase\<close> map the letters \<open>A\<close> to \<open>Z\<close> and \<open>a\<close> to \<open>z\<close>. A character
  outside ASCII is written as the bytes of its UTF-8 encoding, as the source file has it,
  so that two strings are equal exactly when the program's are.

  The model is exact on ASCII text only. The program maps the case of every Unicode
  letter, trims the white space of Unicode and reads a character outside ASCII as one or
  two code units, where the model has two to four bytes that are no letter, no digit and
  no white space and that the case mapping leaves alone. So a statement about what
  \<open>normalizeHeader\<close> returns is made for ASCII text (\<open>isAscii\<close>); the statements about
  the parser below do not depend on which string a header is normalised to.

  The double quote is \<open>CHR 0x22\<close>, the line feed \<open>CHR 0x0A\<close>.
\<close>

definition isAscii :: "char \<Rightarrow> bool" where
  "isAscii c = ((of_char c :: nat) < 128)"

definition lowerLetters :: string where
  "lowerLetters = ''abcdefghijklmnopqrstuvwxyz''"

definition upperLetters :: string where
  "upperLetters = ''ABCDEFGHIJKLMNOPQRSTUVWXYZ''"

definition digits :: string where
  "digits = ''0123456789''"

definition isWhitespace :: "char \<Rightarrow> bool" where
  \<comment> \<open>what \<open>trim\<close> strips: tab, line feed, vertical tab, form feed, carriage return, space\<close>
  "isWhitespace c = (c \<in> set [CHR 0x09, CHR 0x0A, CHR 0x0B, CHR 0x0C, CHR 0x0D, CHR 0x20])"

definition isLineTerminator :: "char \<Rightarrow> bool" where
  \<comment> \<open>what \<open>.\<close> of a regular expression does not match\<close>
  "isLineTerminator c = (c \<in> set [CHR 0x0A, CHR 0x0D])"

definition isAlnum :: "char \<Rightarrow> bool" where
  \<comment> \<open>the class \<open>[a-zA-Z0-9]\<close>\<close>
  "isAlnum c = (c \<in> set (lowerLetters @ upperLetters @ digits))"

definition toLower :: "char \<Rightarrow> char" where
  \<comment> \<open>\<open>toLowerCase\<close> of one character, exact on ASCII\<close>
  "toLower c = (case map_of (zip upperLetters lowerLetters) c of Some d \<Rightarrow> d | None \<Rightarrow> c)"

definition toUpper :: "char \<Rightarrow> char" where
  \<comment> \<open>\<open>chr.toUpperCase()\<close>, exact on ASCII\<close>
  "toUpper c = (case map_of (zip lowerLetters upperLetters) c of Some d \<Rightarrow> d | None \<Rightarrow> c)"

definition trim :: "string \<Rightarrow> string" where
  "trim s = rev (dropWhile isWhitespace (rev (dropWhile isWhitespace s)))"

definition toLowerCase :: "string \<Rightarrow> string" where
  "toLowerCase s = map toLower s"

definition removeQuotes :: "string \<Rightarrow> string" where
  \<comment> \<open>\<open>s.replace(/"/g, '')\<close>\<close>
  "removeQuotes s = filter (\<lambda>c. c \<noteq> CHR 0x22) s"

fun startsWith :: "string \<Rightarrow> string \<Rightarrow> bool" where
  "startsWith s [] = True"
| "startsWith [] (p # ps) = False"
| "startsWith (c # cs) (p # ps) = (c = p \<and> startsWith cs ps)"

fun includesStr :: "string \<Rightarrow> string \<Rightarrow> bool" where
  "includesStr [] sub = startsWith [] sub"
| "includesStr (c # cs) sub = (startsWith (c # cs) sub \<or> includesStr cs sub)"

fun splitOn :: "char \<Rightarrow> string \<Rightarrow> string \<Rightarrow> string list" where
  "splitOn sep cur [] = [rev cur]"
| "splitOn sep cur (c # cs) =
     (if c = sep then rev cur # splitOn sep [] cs else splitOn sep (c # cur) cs)"

definition split :: "char \<Rightarrow> string \<Rightarrow> string list" where
  \<comment> \<open>\<open>s.split(sep)\<close> for a separator of one character: never the empty list\<close>
  "split sep s = splitOn sep [] s"

section \<open>Header normalisation\<close>

text \<open>
  \<open>normalizeHeader\<close> is
  \<^verbatim>\<open>header.trim().toLowerCase().replace(/[^a-zA-Z0-9]+(.)/g, (_, chr) => chr.toUpperCase())\<close>.

  \<open>replaceSeparators run s\<close> scans \<open>s\<close> from the left; \<open>run\<close> is the run of
  characters outside \<open>[a-zA-Z0-9]\<close> read since the last character that was kept. A run
  followed by a letter or digit matches as a whole, with that character captured, and
  is replaced by the character in upper case. A run that reaches the end of the string
  matches only by giving a character back: the longest match leaves the first character
  of the run and all that follow up to the last one that is no line terminator, which is
  captured (\<open>endRun\<close>); the line terminators after it stay, and a run of one
  character, or one whose characters after the first are all line terminators, does not
  match and stays as it is. This is the replacement of the program for ASCII text.
\<close>

definition endRun :: "string \<Rightarrow> string" where
  "endRun run =
     (case dropWhile isLineTerminator (rev (tl run)) of
        [] \<Rightarrow> run
      | chr # _ \<Rightarrow> toUpper chr # rev (takeWhile isLineTerminator (rev (tl run))))"

fun replaceSeparators :: "string \<Rightarrow> string \<Rightarrow> string" where
  "replaceSeparators run [] = (if run = [] then [] else endRun run)"
| "replaceSeparators run (c # cs) =
     (if isAlnum c then (if run = [] then c else toUpper c) # replaceSeparators [] cs
      else replaceSeparators (run @ [c]) cs)"

definition normalizeHeader :: "string \<Rightarrow> string" where
  "normalizeHeader header = replaceSeparators [] (toLowerCase (trim header))"

section \<open>Parsing and schema validation\<close>

text \<open>
  A \<open>CsvRow\<close> is an object with string keys and string values: an association list in
  the order the keys were first assigned, one entry per key. \<open>setProp\<close> is the
  assignment \<open>obj[header] = v\<close>. (An object lists keys that are array indices first;
  nothing below reads the order of the keys.)
\<close>

type_synonym CsvRow = "(string \<times> string) list"

fun setProp :: "string \<Rightarrow> string \<Rightarrow> CsvRow \<Rightarrow> CsvRow" where
  "setProp k v [] = [(k, v)]"
| "setProp k v (p # ps) = (if fst p = k then (k, v) # ps else p # setProp k v ps)"

definition hasOwnProperty :: "CsvRow \<Rightarrow> string \<Rightarrow> bool" where
  "hasOwnProperty row col = (map_of row col \<noteq> None)"

text \<open>
  The data lines are split by \<^verbatim>\<open>line.split(/,(?=(?:(?:[^"]*"){2})*[^"]*$)/)\<close>: a comma
  separates two fields when the rest of the line after it holds an even number of double
  quotes.
\<close>

definition quoteCount :: "string \<Rightarrow> nat" where
  "quoteCount s = length (filter (\<lambda>c. c = CHR 0x22) s)"

fun splitFields :: "string \<Rightarrow> string \<Rightarrow> string list" where
  "splitFields cur [] = [rev cur]"
| "splitFields cur (c # cs) =
     (if c = CHR '','' \<and> even (quoteCount cs) then rev cur # splitFields [] cs
      else splitFields (c # cur) cs)"

definition cell :: "string list \<Rightarrow> nat \<Rightarrow> string" where
  \<comment> \<open>\<open>values[index]?.trim().replace(/"/g, '') || ''\<close>\<close>
  "cell values index =
     (if index < length values then removeQuotes (trim (values ! index)) else [])"

definition assignCell :: "string list \<Rightarrow> nat \<times> string \<Rightarrow> CsvRow \<Rightarrow> CsvRow" where
  \<comment> \<open>the callback of \<open>headers.reduce\<close>: \<open>obj[header] = values[index]?.trim()...; return obj\<close>\<close>
  "assignCell values = (\<lambda>(index, header) obj. setProp header (cell values index) obj)"

definition reduceRow :: "string list \<Rightarrow> string list \<Rightarrow> CsvRow" where
  \<comment> \<open>\<open>headers.reduce(..., {})\<close>\<close>
  "reduceRow headers values = fold (assignCell values) (enumerate 0 headers) []"

definition rowOf :: "string list \<Rightarrow> string \<Rightarrow> CsvRow" where
  \<comment> \<open>the callback of \<open>lines.slice(1).map\<close>\<close>
  "rowOf headers line = reduceRow headers (splitFields [] line)"

definition csvLines :: "string \<Rightarrow> string list" where
  \<comment> \<open>\<open>const lines = csvText.trim().split('\n')\<close>\<close>
  "csvLines csvText = split (CHR 0x0A) (trim csvText)"

definition csvHeaders :: "string list \<Rightarrow> string list" where
  \<comment> \<open>\<open>const headers\<close>, computed once \<open>lines\<close> has two elements or more\<close>
  "csvHeaders lines =
     map (\<lambda>h. normalizeHeader (removeQuotes h)) (split (CHR '','') (lines ! 0))"

definition csvData :: "string list \<Rightarrow> CsvRow list" where
  \<comment> \<open>\<open>const data\<close>\<close>
  "csvData lines = map (rowOf (csvHeaders lines)) (drop 1 lines)"

definition requiredColumns :: "string list" where
  "requiredColumns =
     [''name'', ''amount'', ''utr'', ''paymentDate'', ''campusName'', ''paymentScreenshotUrl'']"

text \<open>
  \<open>parseAndValidateCsv\<close> ends in \<open>setProcessedData(data)\<close> (\<open>Inr data\<close>) or in
  \<open>setError\<close> with \<open>setProcessedData([])\<close> (\<open>Inl\<close>). The errors carry the names the
  specification gives them. \<open>firstRow.hasOwnProperty(col)\<close> calls what the row holds
  under the key \<open>hasOwnProperty\<close>: for a row with a column of that name it is a string
  and the call throws a \<open>TypeError\<close>, which the caller \<open>handleFetchData\<close> catches
  and reports with \<open>setProcessedData([])\<close> as well.
\<close>

datatype parse_error =
    EmptyInputError
  | EmptyResultError
  | MissingColumnsError "string list"
  | HasOwnPropertyTypeError

definition parseAndValidateCsv :: "string \<Rightarrow> parse_error + CsvRow list" where
  "parseAndValidateCsv csvText =
     (let lines = csvLines csvText in
      if length lines < 2 then Inl EmptyInputError
      else
        let data = csvData lines in
        if length data = 0 then Inl EmptyResultError
        else
          let firstRow = data ! 0 in
          if hasOwnProperty firstRow ''hasOwnProperty'' then Inl HasOwnPropertyTypeError
          else
            let missingColumns = filter (\<lambda>col. \<not> hasOwnProperty firstRow col) requiredColumns in
            if length missingColumns > 0 then Inl (MissingColumnsError missingColumns)
            else Inr data)"

fun join :: "string \<Rightarrow> string list \<Rightarrow> string" where
  "join sep [] = []"
| "join sep [x] = x"
| "join sep (x # y # ys) = x @ sep @ join sep (y # ys)"

fun errorText :: "parse_error \<Rightarrow> string" where
  "errorText EmptyInputError =
     ''The fetched data is empty or invalid. Please check the Google Sheet.''"
| "errorText EmptyResultError =
     ''The file is empty or could not be parsed correctly.''"
| "errorText (MissingColumnsError missingColumns) =
     ''The sheet is missing required columns: '' @ join '', '' missingColumns
       @ ''. Please correct the sheet and re-fetch.''"
| "errorText HasOwnPropertyTypeError =
     ''Failed to fetch from URL. firstRow.hasOwnProperty is not a function''"

section \<open>Processing the records\<close>

datatype ProofType = UPI | Cheque | BankSlip | CampusReceipt | Unknown

record ExtractedInformation =
  Student_Name :: string
  Amount :: string
  Campus :: string
  Payment_Date :: string
  Transaction_Details :: string
  Reference_Number :: string
  Proof_Type :: ProofType
  Logo_Present :: bool
  Stamp_Present :: bool

text \<open>
  \<open>Validation_Status\<close> is declared as the union of three string literals, the third
  with an en dash (U+2013, the bytes E2 80 93); at run time it is a string.
\<close>

record ValidationResponse =
  Extracted_Information :: ExtractedInformation
  Validation_Status :: string
  Observations :: string

definition statusValidated :: string where
  "statusValidated = ''Receipt Validated''"

definition statusMismatch :: string where
  "statusMismatch = ''Mismatch Found''"

definition statusNotReadable :: string where
  "statusNotReadable =
     ''Not Readable '' @ [CHR 0xE2, CHR 0x80, CHR 0x93] @ '' Human Review Required''"

record StudentData =
  userId :: string
  name :: string
  amount :: string
  campusName :: string
  paymentDate :: string
  utr :: string

record ProcessingResult =
  originalData :: CsvRow
  validation :: "ValidationResponse option"
  error :: "string option"
  timestamp :: string

text \<open>
  The collaborators of the loop are parameters: fetching and encoding the image
  (\<open>getBase64FromUrl\<close>, whose body is calls of the browser), the classification service
  (\<open>validateReceipt\<close>) and the clock (\<open>new Date().toISOString()\<close>). Each takes the state
  of the world \<open>'w\<close> and returns the next one, so that a call that was not made leaves no
  trace in it. A collaborator returns or throws; what it throws is an \<open>Error\<close> with its
  message, or some other value.
\<close>

datatype thrown = ErrorThrown string | OtherThrown

record 'w collaborators =
  getBase64FromUrl :: "string \<Rightarrow> 'w \<Rightarrow> (thrown + string \<times> string) \<times> 'w"
  validateReceipt :: "string \<Rightarrow> string \<Rightarrow> StudentData \<Rightarrow> 'w \<Rightarrow> (thrown + ValidationResponse) \<times> 'w"
  toISOString :: "'w \<Rightarrow> string \<times> 'w"

text \<open>
  The state of the component that the run reads and writes: \<open>processedData\<close>,
  \<open>results\<close>, \<open>isLoading\<close>, the state variable \<open>error\<close> (here \<open>errorState\<close>, the name
  \<open>error\<close> being the field of a result) and \<open>progress\<close> as the pair of \<open>current\<close> and
  \<open>total\<close>. A state setter is modelled by the update of the field.
\<close>

record AppState =
  processedData :: "CsvRow list"
  results :: "ProcessingResult list"
  isLoading :: bool
  errorState :: "string option"
  progress :: "nat \<times> nat"

definition field :: "CsvRow \<Rightarrow> string \<Rightarrow> string" where
  \<comment> \<open>\<open>row.k || ''\<close>\<close>
  "field row k = (case map_of row k of None \<Rightarrow> [] | Some v \<Rightarrow> v)"

definition tryRow :: "'w collaborators \<Rightarrow> CsvRow \<Rightarrow> 'w \<Rightarrow> (thrown + ValidationResponse) \<times> 'w" where
  \<comment> \<open>the \<open>try\<close> block up to the call of \<open>validateReceipt\<close>\<close>
  "tryRow c row w =
     (if field row ''paymentScreenshotUrl'' = [] \<or> trim (field row ''paymentScreenshotUrl'') = []
      then (Inl (ErrorThrown ([CHR 0x22] @ ''paymentScreenshotUrl'' @ [CHR 0x22]
                   @ '' is missing or empty for this row.'')), w)
      else
        (case getBase64FromUrl c (field row ''paymentScreenshotUrl'') w of
           (Inl err, w1) \<Rightarrow> (Inl err, w1)
         | (Inr (base64, mimeType), w1) \<Rightarrow>
             validateReceipt c base64 mimeType
               \<lparr>userId = field row ''userId'', name = field row ''name'',
                amount = field row ''amount'', campusName = field row ''campusName'',
                paymentDate = field row ''paymentDate'', utr = field row ''utr''\<rparr> w1))"

definition errorMessageOf :: "thrown \<Rightarrow> string" where
  \<comment> \<open>\<open>err instanceof Error ? err.message : 'An unknown error occurred.'\<close>\<close>
  "errorMessageOf err =
     (case err of ErrorThrown m \<Rightarrow> m | OtherThrown \<Rightarrow> ''An unknown error occurred.'')"

fun replaceFirst :: "char \<Rightarrow> char \<Rightarrow> string \<Rightarrow> string" where
  "replaceFirst a b [] = []"
| "replaceFirst a b (c # cs) = (if c = a then b # cs else c # replaceFirst a b cs)"

definition newTimestamp :: "'w collaborators \<Rightarrow> 'w \<Rightarrow> string \<times> 'w" where
  \<comment> \<open>\<open>new Date().toISOString().replace('T', ' ').substring(0, 19)\<close>\<close>
  "newTimestamp c w =
     (case toISOString c w of (isoText, w') \<Rightarrow> (take 19 (replaceFirst (CHR ''T'') (CHR 0x20) isoText), w'))"

text \<open>
  One pass of the loop body ends by pushing a result (\<open>Pushed\<close>) or, for the first record
  with a message that includes \<open>Invalid API Key\<close>, by the early \<open>return\<close> (\<open>Stopped\<close>,
  with the text given to \<open>setError\<close> and the one result given to \<open>setResults\<close>).
\<close>

datatype step = Pushed ProcessingResult | Stopped string ProcessingResult

definition loopBody :: "'w collaborators \<Rightarrow> nat \<Rightarrow> CsvRow \<Rightarrow> 'w \<Rightarrow> step \<times> 'w" where
  "loopBody c index row w =
     (case tryRow c row w of
        (Inr v, w1) \<Rightarrow>
          (case newTimestamp c w1 of (ts, w2) \<Rightarrow>
             (Pushed \<lparr>originalData = row, validation = Some v, error = None, timestamp = ts\<rparr>, w2))
      | (Inl err, w1) \<Rightarrow>
          (let errorMessage = errorMessageOf err in
           if index = 0 \<and> includesStr errorMessage ''Invalid API Key''
           then
             (case newTimestamp c w1 of (ts, w2) \<Rightarrow>
                (Stopped
                   (''Critical Error: '' @ errorMessage
                      @ '' Processing has been stopped. Please check your application configuration.'')
                   \<lparr>originalData = row, validation = None,
                    error = Some (''Processing stopped due to critical error: '' @ errorMessage),
                    timestamp = ts\<rparr>, w2))
           else
             (case newTimestamp c w1 of (ts, w2) \<Rightarrow>
                (Pushed \<lparr>originalData = row, validation = None, error = Some errorMessage,
                         timestamp = ts\<rparr>, w2))))"

fun processRows ::
  "'w collaborators \<Rightarrow> nat \<Rightarrow> nat \<Rightarrow> CsvRow list \<Rightarrow> ProcessingResult list \<Rightarrow> AppState \<Rightarrow> 'w
     \<Rightarrow> AppState \<times> 'w" where
  "processRows c n index [] newResults s w = (s\<lparr>isLoading := False\<rparr>, w)"
| "processRows c n index (row # rest) newResults s w =
     (case loopBody c index row w of
        (Pushed result, w') \<Rightarrow>
          processRows c n (index + 1) rest (newResults @ [result])
            (s\<lparr>progress := (index + 1, n), results := newResults @ [result]\<rparr>) w'
      | (Stopped message result, w') \<Rightarrow>
          (s\<lparr>progress := (index + 1, n), errorState := Some message, isLoading := False,
             results := [result]\<rparr>, w'))"

definition handleProcessData :: "'w collaborators \<Rightarrow> AppState \<Rightarrow> 'w \<Rightarrow> AppState \<times> 'w" where
  "handleProcessData c s w =
     (if length (processedData s) = 0
      then (s\<lparr>errorState := Some ''No data to process. Please fetch data from a Google Sheet first.''\<rparr>, w)
      else processRows c (length (processedData s)) 0 (processedData s) []
             (s\<lparr>isLoading := True, errorState := None, results := [],
                progress := (0, length (processedData s))\<rparr>) w)"

section \<open>The tally of the chart\<close>

text \<open>The accumulator of \<open>results.reduce\<close>; \<open>errors\<close> is its field \<open>error\<close>.\<close>

record Counts =
  validated :: nat
  mismatch :: nat
  review :: nat
  errors :: nat

text \<open>
  The third label of the \<open>switch\<close> is the string the source file holds there: between
  \<open>Not Readable\<close> and \<open>Human Review Required\<close> it has the three characters U+00E2,
  U+20AC, U+201C (the bytes C3 A2, E2 82 AC, E2 80 9C), not the en dash of the type.
\<close>

definition reviewLabel :: string where
  "reviewLabel =
     ''Not Readable '' @ [CHR 0xC3, CHR 0xA2, CHR 0xE2, CHR 0x82, CHR 0xAC, CHR 0xE2, CHR 0x80, CHR 0x9C]
       @ '' Human Review Required''"

definition tally :: "Counts \<Rightarrow> ProcessingResult \<Rightarrow> Counts" where
  \<comment> \<open>the callback of \<open>results.reduce\<close>; a string is truthy when it is not empty\<close>
  "tally acc res =
     (if (case error res of None \<Rightarrow> False | Some m \<Rightarrow> m \<noteq> [])
      then acc\<lparr>errors := errors acc + 1\<rparr>
      else
        (case validation res of
           None \<Rightarrow> acc
         | Some v \<Rightarrow>
             if Validation_Status v = ''Receipt Validated'' then acc\<lparr>validated := validated acc + 1\<rparr>
             else if Validation_Status v = ''Mismatch Found'' then acc\<lparr>mismatch := mismatch acc + 1\<rparr>
             else if Validation_Status v = reviewLabel then acc\<lparr>review := review acc + 1\<rparr>
             else acc))"

definition counts :: "ProcessingResult list \<Rightarrow> Counts" where
  "counts rs =
     fold (\<lambda>res acc. tally acc res) rs \<lparr>validated = 0, mismatch = 0, review = 0, errors = 0\<rparr>"

definition chartData :: "ProcessingResult list \<Rightarrow> (string \<times> nat \<times> string) list" where
  \<comment> \<open>an item is its name, value and color\<close>
  "chartData rs =
     (if length rs = 0 then []
      else
        filter (\<lambda>item. fst (snd item) > 0)
          [(''Validated'', validated (counts rs), ''#22c55e''),
           (''Mismatch'', mismatch (counts rs), ''#ef4444''),
           (''Needs Review'', review (counts rs), ''#f59e0b''),
           (''Error'', errors (counts rs), ''#6b7280'')])"

section \<open>The run as the specification words it\<close>

text \<open>
  \<open>credentialFailure\<close> is the guard of the early \<open>return\<close> but for the index: the record
  fails and the message includes \<open>Invalid API Key\<close>. \<open>worldAfter\<close> is the world once the
  record was processed and its time stamp taken.
\<close>

definition failureMessage :: "'w collaborators \<Rightarrow> CsvRow \<Rightarrow> 'w \<Rightarrow> string" where
  "failureMessage c row w =
     (case fst (tryRow c row w) of Inl err \<Rightarrow> errorMessageOf err | Inr v \<Rightarrow> [])"

definition credentialFailure :: "'w collaborators \<Rightarrow> CsvRow \<Rightarrow> 'w \<Rightarrow> bool" where
  "credentialFailure c row w =
     (case fst (tryRow c row w) of
        Inl err \<Rightarrow> includesStr (errorMessageOf err) ''Invalid API Key''
      | Inr v \<Rightarrow> False)"

definition worldAfter :: "'w collaborators \<Rightarrow> CsvRow \<Rightarrow> 'w \<Rightarrow> 'w" where
  "worldAfter c row w = snd (newTimestamp c (snd (tryRow c row w)))"

text \<open>
  Follows the specification's words, not the loop of the source. The Record Processor:
  "given one RawRecord, produces one RecordOutcome", a verdict or the failure
  description, with the record and a time stamp. The Pipeline Orchestrator without its
  short-circuit rule: it "drives [the processor] once per record, strictly in input
  order", every failure isolated.
\<close>

definition recordOutcome :: "'w collaborators \<Rightarrow> CsvRow \<Rightarrow> 'w \<Rightarrow> ProcessingResult" where
  "recordOutcome c row w =
     (case fst (tryRow c row w) of
        Inr v \<Rightarrow>
          \<lparr>originalData = row, validation = Some v, error = None,
           timestamp = fst (newTimestamp c (snd (tryRow c row w)))\<rparr>
      | Inl err \<Rightarrow>
          \<lparr>originalData = row, validation = None, error = Some (errorMessageOf err),
           timestamp = fst (newTimestamp c (snd (tryRow c row w)))\<rparr>)"

fun isolatedRun :: "'w collaborators \<Rightarrow> CsvRow list \<Rightarrow> 'w \<Rightarrow> ProcessingResult list \<times> 'w" where
  "isolatedRun c [] w = ([], w)"
| "isolatedRun c (row # rest) w =
     (case isolatedRun c rest (worldAfter c row w) of
        (outcomes, w') \<Rightarrow> (recordOutcome c row w # outcomes, w'))"

section \<open>An example run\<close>

text \<open>
  Collaborators for the examples. The world is the log of the calls made: each fetch and
  each classification appends a line. The classification fails with a message that
  includes \<open>Invalid API Key\<close> for the student named Eve and validates every other
  receipt; the clock stands still.
\<close>

definition exampleVerdict :: ValidationResponse where
  "exampleVerdict =
     \<lparr>Extracted_Information =
        \<lparr>Student_Name = ''Bob'', Amount = ''100'', Campus = ''Main'', Payment_Date = ''2024-01-05'',
         Transaction_Details = ''UPI transfer'', Reference_Number = ''U1'', Proof_Type = UPI,
         Logo_Present = True, Stamp_Present = False\<rparr>,
      Validation_Status = ''Receipt Validated'', Observations = ''All fields match.''\<rparr>"

definition exampleCollaborators :: "string list collaborators" where
  "exampleCollaborators =
     \<lparr>getBase64FromUrl = (\<lambda>url w. (Inr (''QUJD'', ''image/png''), w @ [''fetch '' @ url])),
      validateReceipt = (\<lambda>base64 mimeType student w.
        (if name student = ''Eve'' then Inl (ErrorThrown ''Invalid API Key provided.'')
         else Inr exampleVerdict, w @ [''validate '' @ name student])),
      toISOString = (\<lambda>w. (''2024-01-05T10:20:30.123Z'', w))\<rparr>"

definition exampleRow :: "string \<Rightarrow> string \<Rightarrow> CsvRow" where
  "exampleRow student url =
     [(''name'', student), (''amount'', ''100''), (''utr'', ''U1''), (''paymentDate'', ''2024-01-05''),
      (''campusName'', ''Main''), (''paymentScreenshotUrl'', url)]"

definition exampleState :: "CsvRow list \<Rightarrow> AppState" where
  "exampleState rows =
     \<lparr>processedData = rows, results = [], isLoading = False, errorState = None, progress = (0, 0)\<rparr>"

section \<open>The split of a line as the specification words it\<close>

text \<open>
  Follows the specification's words, not the regular expression of the source: a
  delimiter is "a real separator only when it is not enclosed by an odd number of
  preceding quote characters on that line". \<open>inQuotes\<close> says that the number of quote
  characters read so far is odd. It is compared with what the source does
  (\<open>splitFields\<close>).
\<close>

fun splitUnquoted :: "bool \<Rightarrow> string \<Rightarrow> string \<Rightarrow> string list" where
  "splitUnquoted inQuotes cur [] = [rev cur]"
| "splitUnquoted inQuotes cur (c # cs) =
     (if c = CHR '','' \<and> \<not> inQuotes then rev cur # splitUnquoted inQuotes [] cs
      else splitUnquoted (if c = CHR 0x22 then \<not> inQuotes else inQuotes) (c # cur) cs)"

definition splitAsSpecified :: "string \<Rightarrow> string list" where
  "splitAsSpecified line = splitUnquoted False [] line"

section \<open>The field as the specification words it\<close>

text \<open>
  Follows the specification's words, not the source: "each field has surrounding quote
  characters stripped and is trimmed", the quote characters inside the field staying.
  It is compared with what the source does (\<open>cell\<close>).
\<close>

definition stripSurroundingQuotes :: "string \<Rightarrow> string" where
  "stripSurroundingQuotes f =
     (if 2 \<le> length f \<and> hd f = CHR 0x22 \<and> last f = CHR 0x22 then butlast (tl f) else f)"

definition fieldAsSpecified :: "string \<Rightarrow> string" where
  "fieldAsSpecified f = trim (stripSurroundingQuotes f)"

text \<open>The header line of the example sheets.\<close>

definition sheetHeader :: string where
  "sheetHeader = ''Name,Amount,UTR,Payment Date,Campus Name,Payment Screenshot URL''"

section \<open>The shape of a normalised header\<close>

text \<open>
  What \<open>normalizeHeader\<close> returns: letters and digits, then at most one more character,
  which is no white space.
\<close>

definition normalShape :: "string \<Rightarrow> bool" where
  "normalShape r = (list_all isAlnum (butlast r) \<and> (r = [] \<or> \<not> isWhitespace (last r)))"

section \<open>Lines and white space\<close>

lemma length_splitOn: "length (splitOn sep cur s) = Suc (length (filter (\<lambda>c. c = sep) s))"
  by (induction s arbitrary: cur) simp_all

lemma length_split: "length (split sep s) = Suc (length (filter (\<lambda>c. c = sep) s))"
  by (simp add: split_def length_splitOn)

lemma csvLines_short: "(length (csvLines t) < 2) = (CHR 0x0A \<notin> set (trim t))"
  by (auto simp add: csvLines_def length_split filter_empty_conv)

lemma csvData_length: "length (csvData lines) = length lines - 1"
  by (simp add: csvData_def)

lemma dropWhile_all: "list_all P xs \<Longrightarrow> dropWhile P (xs @ ys) = dropWhile P ys"
  by (induction xs) simp_all

lemma trim_whitespace:
  assumes "list_all isWhitespace ws"
  shows "trim ws = []"
proof -
  have d: "dropWhile isWhitespace ws = []"
    using assms by (induction ws) simp_all
  show ?thesis unfolding trim_def d by simp
qed

lemma trim_append_whitespace:
  assumes "list_all isWhitespace ws"
  shows "trim (t @ ws) = trim t"
proof (cases "list_all isWhitespace t")
  case True
  with assms have "list_all isWhitespace (t @ ws)" by simp
  with True show ?thesis by (simp only: trim_whitespace)
next
  case False
  then have "dropWhile isWhitespace (t @ ws) = dropWhile isWhitespace t @ ws"
    by (auto simp: list_all_iff)
  moreover have "dropWhile isWhitespace (rev ws @ xs) = dropWhile isWhitespace xs" for xs
    using assms by (simp add: dropWhile_all)
  ultimately show ?thesis by (simp add: trim_def)
qed

lemma parse_trimmed: "trim t = trim u \<Longrightarrow> parseAndValidateCsv t = parseAndValidateCsv u"
  by (simp add: parseAndValidateCsv_def csvLines_def)

section \<open>The failures of the parser\<close>

lemma parse_empty_input:
  "(parseAndValidateCsv t = Inl EmptyInputError) = (length (csvLines t) < 2)"
  by (simp add: parseAndValidateCsv_def Let_def)

lemma parse_never_empty_result: "parseAndValidateCsv t \<noteq> Inl EmptyResultError"
proof (cases "length (csvLines t) < 2")
  case True
  then show ?thesis by (simp add: parseAndValidateCsv_def Let_def)
next
  case False
  then have "length (csvData (csvLines t)) \<noteq> 0" by (simp add: csvData_length)
  with False show ?thesis by (simp add: parseAndValidateCsv_def Let_def)
qed

lemma parse_errors:
  assumes "parseAndValidateCsv t = Inl e"
  shows "e = EmptyInputError \<or> e = HasOwnPropertyTypeError
           \<or> (\<exists>cols. cols \<noteq> [] \<and> e = MissingColumnsError cols)"
proof (cases "length (csvLines t) < 2")
  case True
  with assms show ?thesis by (simp add: parseAndValidateCsv_def Let_def)
next
  case False
  then have "length (csvData (csvLines t)) \<noteq> 0" by (simp add: csvData_length)
  with False assms show ?thesis
    by (auto simp add: parseAndValidateCsv_def Let_def split: if_splits)
qed

text \<open>
  C6, as the claim has it, fails: a text with only a header line is a text for which
  no data record results from splitting the lines, and it fails with
  \<open>EmptyInputError\<close>, not with \<open>EmptyResultError\<close>; and a text with a header line and a
  data line that lacks required columns fails in a third way.
\<close>

theorem header_only_is_not_empty_result:
  "drop 1 (csvLines ''name,amount'') = []
   \<and> csvData (csvLines ''name,amount'') = []
   \<and> parseAndValidateCsv ''name,amount'' = Inl EmptyInputError
   \<and> parseAndValidateCsv ''name,amount'' \<noteq> Inl EmptyResultError
   \<and> parseAndValidateCsv (''name,amount'' @ [CHR 0x0A] @ ''Jane,100'')
       = Inl (MissingColumnsError [''utr'', ''paymentDate'', ''campusName'', ''paymentScreenshotUrl''])"
  by code_simp

text \<open>
  C6, amended: parsing fails with \<open>EmptyInputError\<close> exactly when the trimmed text has
  fewer than two lines, that is, holds no line feed. It never fails with
  \<open>EmptyResultError\<close>: a text of two lines or more always gives a data record, so the
  second check cannot fire. Every other failure names missing columns, or is the
  \<open>TypeError\<close> of a row with a column \<open>hasOwnProperty\<close>. The messages of the two empty
  failures differ.
\<close>

theorem parse_failure_modes:
  "(parseAndValidateCsv t = Inl EmptyInputError) = (CHR 0x0A \<notin> set (trim t))
   \<and> parseAndValidateCsv t \<noteq> Inl EmptyResultError
   \<and> (\<forall>e. parseAndValidateCsv t = Inl e \<longrightarrow>
          e = EmptyInputError \<or> e = HasOwnPropertyTypeError
            \<or> (\<exists>cols. cols \<noteq> [] \<and> e = MissingColumnsError cols))
   \<and> errorText EmptyInputError \<noteq> errorText EmptyResultError"
proof -
  have "(parseAndValidateCsv t = Inl EmptyInputError) = (CHR 0x0A \<notin> set (trim t))"
    by (simp only: parse_empty_input csvLines_short)
  moreover have "errorText EmptyInputError \<noteq> errorText EmptyResultError"
    by simp
  ultimately show ?thesis
    using parse_never_empty_result [of t] parse_errors [of t] by blast
qed

theorem parse_failure_modes_witness:
  "parseAndValidateCsv (''name'' @ [CHR 0x0A] @ ''Jane'')
     = Inl (MissingColumnsError [''amount'', ''utr'', ''paymentDate'', ''campusName'', ''paymentScreenshotUrl''])
   \<and> [''amount'', ''utr'', ''paymentDate'', ''campusName'', ''paymentScreenshotUrl''] \<noteq> ([] :: string list)
   \<and> parseAndValidateCsv ''name'' = Inl EmptyInputError"
proof -
  have h: "parseAndValidateCsv (''name'' @ [CHR 0x0A] @ ''Jane'')
     = Inl (MissingColumnsError [''amount'', ''utr'', ''paymentDate'', ''campusName'', ''paymentScreenshotUrl''])"
    by code_simp
  have n: "CHR 0x0A \<notin> set (trim ''name'')"
    by code_simp
  from parse_failure_modes [of "''name''"] n
  have "parseAndValidateCsv ''name'' = Inl EmptyInputError" by blast
  moreover from parse_failure_modes [of "''name'' @ [CHR 0x0A] @ ''Jane''"] h
  have "[''amount'', ''utr'', ''paymentDate'', ''campusName'', ''paymentScreenshotUrl''] \<noteq> ([] :: string list)"
    by blast
  ultimately show ?thesis using h by blast
qed

text \<open>
  C10: the text is trimmed before it is split into lines. A text of white space only
  fails as empty input; white space after the text, line feeds after the last data row
  among it, changes nothing of the result, so it adds no record.
\<close>

theorem whitespace_only_and_trailing_newlines:
  assumes "list_all isWhitespace ws"
  shows "parseAndValidateCsv ws = Inl EmptyInputError
         \<and> csvLines (t @ ws) = csvLines t
         \<and> parseAndValidateCsv (t @ ws) = parseAndValidateCsv t
         \<and> parseAndValidateCsv (t @ replicate k (CHR 0x0A)) = parseAndValidateCsv t"
proof -
  have "trim ws = []" using assms by (rule trim_whitespace)
  then have a: "parseAndValidateCsv ws = Inl EmptyInputError"
    by (simp add: parse_empty_input csvLines_short)
  have b: "trim (t @ ws) = trim t" using assms by (rule trim_append_whitespace)
  have "list_all isWhitespace (replicate k (CHR 0x0A))"
    by (simp add: list_all_iff isWhitespace_def)
  then have c: "trim (t @ replicate k (CHR 0x0A)) = trim t" by (rule trim_append_whitespace)
  have d: "csvLines (t @ ws) = csvLines t" using b by (simp add: csvLines_def)
  show ?thesis using a d parse_trimmed [OF b] parse_trimmed [OF c] by blast
qed

theorem whitespace_only_and_trailing_newlines_witness:
  "list_all isWhitespace [CHR 0x0A, CHR 0x20, CHR 0x0A]
   \<and> parseAndValidateCsv [CHR 0x0A, CHR 0x20, CHR 0x0A] = Inl EmptyInputError
   \<and> parseAndValidateCsv ((''name'' @ [CHR 0x0A] @ ''Jane'') @ [CHR 0x0A, CHR 0x20, CHR 0x0A])
       = parseAndValidateCsv (''name'' @ [CHR 0x0A] @ ''Jane'')"
proof -
  have h: "list_all isWhitespace [CHR 0x0A, CHR 0x20, CHR 0x0A]"
    by (simp add: isWhitespace_def)
  show ?thesis
    using h whitespace_only_and_trailing_newlines [OF h, of "''name'' @ [CHR 0x0A] @ ''Jane''"]
    by blast
qed

lemma splitFields_unquoted:
  "inQuotes = odd (quoteCount s) \<Longrightarrow> splitFields cur s = splitUnquoted inQuotes cur s"
proof (induction s arbitrary: inQuotes cur)
  case Nil
  then show ?case by simp
next
  case (Cons c cs)
  show ?case
  proof (cases "c = CHR 0x22")
    case True
    then have "splitFields (c # cur) cs = splitUnquoted (\<not> inQuotes) (c # cur) cs"
      using Cons.prems by (intro Cons.IH) (simp add: quoteCount_def)
    with True show ?thesis by simp
  next
    case False
    then have q: "inQuotes = odd (quoteCount cs)"
      using Cons.prems by (simp add: quoteCount_def)
    have "splitFields k cs = splitUnquoted inQuotes k cs" for k
      using q by (rule Cons.IH)
    with False q show ?thesis by simp
  qed
qed

text \<open>
  C4, as the claim has it, fails. The rule is not the one of the source for a line with
  an odd number of quote characters: in \<open>"a,b\<close> the comma has one quote character
  before it and none after it, and the source cuts the line there. And the text of the
  claim, with its header line \<open>name,amount\<close>, is refused by the schema check of the same
  function, which yields no record for it.
\<close>

theorem comma_after_one_quote_is_a_separator:
  "splitFields [] ([CHR 0x22] @ ''a,b'') = [[CHR 0x22] @ ''a'', ''b'']
   \<and> splitAsSpecified ([CHR 0x22] @ ''a,b'') = [[CHR 0x22] @ ''a,b'']
   \<and> csvData (csvLines (''name,amount'' @ [CHR 0x0A, CHR 0x22] @ ''a,b''))
       = [[(''name'', ''a''), (''amount'', ''b'')]]
   \<and> parseAndValidateCsv (''name,amount'' @ [CHR 0x0A, CHR 0x22] @ ''Doe, Jane'' @ [CHR 0x22] @ '',100'')
       = Inl (MissingColumnsError [''utr'', ''paymentDate'', ''campusName'', ''paymentScreenshotUrl''])"
  by code_simp

text \<open>
  C4, amended: on a data line with an even number of quote characters the source cuts
  at a comma exactly when the specification's rule does, that is, when an even number
  of quote characters precedes the comma, so that a comma within quotes separates
  nothing; the record of the line is built from these fields. For the header line
  \<open>name,amount\<close> and the data line \<open>"Doe, Jane",100\<close> the records computed are the one
  record with \<open>Doe, Jane\<close> under \<open>name\<close> and \<open>100\<close> under \<open>amount\<close>, and with all
  six required columns in the sheet the function returns the record with its comma.
\<close>

theorem comma_within_balanced_quotes_is_no_separator:
  assumes "even (quoteCount line)"
  shows "splitFields [] line = splitAsSpecified line
   \<and> rowOf headers line = reduceRow headers (splitAsSpecified line)
   \<and> csvData (csvLines (''name,amount'' @ [CHR 0x0A, CHR 0x22] @ ''Doe, Jane'' @ [CHR 0x22] @ '',100''))
       = [[(''name'', ''Doe, Jane''), (''amount'', ''100'')]]
   \<and> parseAndValidateCsv
        (''Name,Amount,UTR,Payment Date,Campus Name,Payment Screenshot URL''
           @ [CHR 0x0A, CHR 0x22] @ ''Doe, Jane'' @ [CHR 0x22] @ '',100,U1,2024-01-05,Main,http://x/y.png'')
       = Inr [[(''name'', ''Doe, Jane''), (''amount'', ''100''), (''utr'', ''U1''),
               (''paymentDate'', ''2024-01-05''), (''campusName'', ''Main''),
               (''paymentScreenshotUrl'', ''http://x/y.png'')]]"
proof -
  have s: "splitFields [] line = splitAsSpecified line"
    unfolding splitAsSpecified_def using assms by (intro splitFields_unquoted) simp
  then have r: "rowOf headers line = reduceRow headers (splitAsSpecified line)"
    by (simp add: rowOf_def)
  have d: "csvData (csvLines (''name,amount'' @ [CHR 0x0A, CHR 0x22] @ ''Doe, Jane'' @ [CHR 0x22] @ '',100''))
       = [[(''name'', ''Doe, Jane''), (''amount'', ''100'')]]"
    by code_simp
  have p: "parseAndValidateCsv
        (''Name,Amount,UTR,Payment Date,Campus Name,Payment Screenshot URL''
           @ [CHR 0x0A, CHR 0x22] @ ''Doe, Jane'' @ [CHR 0x22] @ '',100,U1,2024-01-05,Main,http://x/y.png'')
       = Inr [[(''name'', ''Doe, Jane''), (''amount'', ''100''), (''utr'', ''U1''),
               (''paymentDate'', ''2024-01-05''), (''campusName'', ''Main''),
               (''paymentScreenshotUrl'', ''http://x/y.png'')]]"
    by code_simp
  show ?thesis using s r d p by (intro conjI)
qed

theorem comma_within_balanced_quotes_is_no_separator_witness:
  "even (quoteCount ([CHR 0x22] @ ''Doe, Jane'' @ [CHR 0x22] @ '',100''))
   \<and> splitFields [] ([CHR 0x22] @ ''Doe, Jane'' @ [CHR 0x22] @ '',100'')
       = [[CHR 0x22] @ ''Doe, Jane'' @ [CHR 0x22], ''100'']"
proof -
  have h: "even (quoteCount ([CHR 0x22] @ ''Doe, Jane'' @ [CHR 0x22] @ '',100''))"
    by code_simp
  have e: "splitAsSpecified ([CHR 0x22] @ ''Doe, Jane'' @ [CHR 0x22] @ '',100'')
       = [[CHR 0x22] @ ''Doe, Jane'' @ [CHR 0x22], ''100'']"
    by code_simp
  note k = conjunct1 [OF comma_within_balanced_quotes_is_no_separator [OF h]]
  have "splitFields [] ([CHR 0x22] @ ''Doe, Jane'' @ [CHR 0x22] @ '',100'')
       = [[CHR 0x22] @ ''Doe, Jane'' @ [CHR 0x22], ''100'']"
    by (simp only: k e)
  with h show ?thesis by (intro conjI)
qed

text \<open>
  C5, at a sheet with a column headed \<open>has own property\<close>: the header is normalised to
  \<open>hasOwnProperty\<close>, the first record holds a string under that key, and the schema
  check throws instead of naming the five required columns that are missing.
\<close>

theorem hasOwnProperty_column_breaks_schema_check:
  "csvHeaders (csvLines (''has own property,name'' @ [CHR 0x0A] @ ''x,Jane''))
     = [''hasOwnProperty'', ''name'']
   \<and> csvData (csvLines (''has own property,name'' @ [CHR 0x0A] @ ''x,Jane''))
     = [[(''hasOwnProperty'', ''x''), (''name'', ''Jane'')]]
   \<and> parseAndValidateCsv (''has own property,name'' @ [CHR 0x0A] @ ''x,Jane'')
     = Inl HasOwnPropertyTypeError"
  by code_simp

section \<open>The tally\<close>

lemma status_labels:
  "statusNotReadable \<noteq> reviewLabel"
  "statusNotReadable \<noteq> ''Receipt Validated''"
  "statusNotReadable \<noteq> ''Mismatch Found''"
  by (simp_all add: statusNotReadable_def reviewLabel_def)

lemma tally_not_readable:
  "tally acc \<lparr>originalData = row,
               validation = Some \<lparr>Extracted_Information = info,
                                  Validation_Status = statusNotReadable, Observations = obs\<rparr>,
               error = None, timestamp = ts\<rparr> = acc"
  by (simp add: tally_def status_labels)

text \<open>
  What the tally does for the other outcomes: an outcome adds to one count at most, an
  outcome with an error message that is not empty adds to the errors, and the chart
  leaves out the counts that are zero.
\<close>

lemma tally_one_bucket:
  "validated (tally acc res) + mismatch (tally acc res) + review (tally acc res) + errors (tally acc res)
     \<le> Suc (validated acc + mismatch acc + review acc + errors acc)"
  by (simp add: tally_def split: option.splits)

lemma tally_error:
  assumes "error res = Some m" and "m \<noteq> []"
  shows "tally acc res = acc\<lparr>errors := errors acc + 1\<rparr>"
  using assms by (simp add: tally_def)

lemma chartData_example:
  "chartData
     [\<lparr>originalData = r1, validation = Some \<lparr>Extracted_Information = i1, Validation_Status = statusValidated, Observations = o1\<rparr>, error = None, timestamp = t1\<rparr>,
      \<lparr>originalData = r2, validation = Some \<lparr>Extracted_Information = i2, Validation_Status = statusMismatch, Observations = o2\<rparr>, error = None, timestamp = t2\<rparr>,
      \<lparr>originalData = r3, validation = None, error = Some ''Failed to fetch image from URL: Not Found'', timestamp = t3\<rparr>,
      \<lparr>originalData = r4, validation = Some \<lparr>Extracted_Information = i4, Validation_Status = statusValidated, Observations = o4\<rparr>, error = None, timestamp = t4\<rparr>]
   = [(''Validated'', 2, ''#22c55e''), (''Mismatch'', 1, ''#ef4444''), (''Error'', 1, ''#6b7280'')]"
  by (simp add: chartData_def counts_def tally_def statusValidated_def statusMismatch_def)

text \<open>
  C3, at a list of one outcome without error whose verdict category is the third
  category of the type, \<open>Not Readable \<dots> Human Review Required\<close> with the en dash: the
  label of the \<open>switch\<close> is another string, no count is incremented and the chart has
  no item, where the claim counts the outcome under Needs Review.
\<close>

theorem not_readable_verdict_is_not_counted:
  "statusNotReadable \<noteq> reviewLabel
   \<and> counts [\<lparr>originalData = row,
               validation = Some \<lparr>Extracted_Information = info,
                                  Validation_Status = statusNotReadable, Observations = obs\<rparr>,
               error = None, timestamp = ts\<rparr>]
       = \<lparr>validated = 0, mismatch = 0, review = 0, errors = 0\<rparr>
   \<and> chartData [\<lparr>originalData = row,
                  validation = Some \<lparr>Extracted_Information = info,
                                     Validation_Status = statusNotReadable, Observations = obs\<rparr>,
                  error = None, timestamp = ts\<rparr>]
       = []"
  by (simp add: chartData_def counts_def tally_not_readable status_labels)

section \<open>Normalising twice\<close>

lemmas charDefs = isAlnum_def isWhitespace_def isLineTerminator_def toUpper_def toLower_def
  lowerLetters_def upperLetters_def digits_def

lemma alnum_not_space: "isAlnum c \<Longrightarrow> \<not> isWhitespace c"
  by (auto simp: charDefs)

lemma terminator_is_space: "isLineTerminator c \<Longrightarrow> isWhitespace c"
  by (auto simp: charDefs)

lemma toUpper_fixes: "\<not> isAlnum c \<Longrightarrow> toUpper c = c"
  by (simp add: charDefs)

lemma toLower_fixes: "\<not> isAlnum c \<Longrightarrow> toLower c = c"
  by (simp add: charDefs)

lemma toUpper_alnum: "isAlnum c \<Longrightarrow> isAlnum (toUpper c)"
  by (auto simp: charDefs)

lemma toLower_alnum: "isAlnum c \<Longrightarrow> isAlnum (toLower c)"
  by (auto simp: charDefs)

lemma toLower_idem: "toLower (toLower c) = toLower c"
  by (simp add: charDefs)

lemma toLower_space: "isWhitespace (toLower c) = isWhitespace c"
  by (simp add: charDefs)


lemma normalShape_Cons:
  assumes "isAlnum x" and "normalShape r"
  shows "normalShape (x # r)"
  using assms by (cases r) (auto simp: normalShape_def alnum_not_space)

lemma endRun_shape:
  assumes "run \<noteq> []" and "\<not> isWhitespace (last run)" and "list_all (\<lambda>c. \<not> isAlnum c) run"
  shows "normalShape (endRun run)"
proof (cases "tl run")
  case Nil
  with assms(1) obtain c where "run = [c]" by (cases run) auto
  with assms(2) show ?thesis by (simp add: endRun_def normalShape_def)
next
  case (Cons a as)
  then have l: "last (tl run) = last run" and ne: "tl run \<noteq> []"
    using assms(1) by (cases run; simp)+
  obtain ys where r: "rev (tl run) = last run # ys"
    using ne l by (metis rev.simps(2) rev_rev_ident snoc_eq_iff_butlast rev_is_Nil_conv list.exhaust last_rev hd_rev list.sel(1))
  have nt: "\<not> isLineTerminator (last run)"
    using assms(2) terminator_is_space by blast
  have "\<not> isAlnum (last run)"
    using assms(1,3) by (simp add: list_all_iff)
  then have "toUpper (last run) = last run" by (rule toUpper_fixes)
  then show ?thesis
    using r nt assms(2) by (simp add: endRun_def normalShape_def)
qed

lemma replaceSeparators_shape:
  assumes "list_all (\<lambda>c. \<not> isAlnum c) run"
    and "run @ s \<noteq> [] \<Longrightarrow> \<not> isWhitespace (last (run @ s))"
  shows "normalShape (replaceSeparators run s)"
  using assms
proof (induction s arbitrary: run)
  case Nil
  show ?case
  proof (cases "run = []")
    case True
    then show ?thesis by (simp add: normalShape_def)
  next
    case False
    with Nil have "normalShape (endRun run)" by (intro endRun_shape) simp_all
    with False show ?thesis by simp
  qed
next
  case (Cons c cs)
  show ?case
  proof (cases "isAlnum c")
    case True
    have "normalShape (replaceSeparators [] cs)"
      using Cons.prems(2) by (intro Cons.IH) (auto split: if_splits)
    moreover have "isAlnum (if run = [] then c else toUpper c)"
      using True by (simp add: toUpper_alnum)
    ultimately show ?thesis using True by (simp add: normalShape_Cons)
  next
    case False
    have "normalShape (replaceSeparators (run @ [c]) cs)"
      using Cons.prems False by (intro Cons.IH) auto
    then show ?thesis using False by simp
  qed
qed

lemma trim_ends:
  assumes "trim h \<noteq> []"
  shows "\<not> isWhitespace (last (trim h))"
proof -
  let ?xs = "dropWhile isWhitespace (rev (dropWhile isWhitespace h))"
  have ne: "?xs \<noteq> []" using assms by (simp add: trim_def)
  then have "\<not> isWhitespace (hd ?xs)" by (rule hd_dropWhile)
  moreover have "last (trim h) = hd ?xs" using ne by (simp add: trim_def last_rev)
  ultimately show ?thesis by simp
qed

lemma normalizeHeader_shape: "normalShape (normalizeHeader h)"
proof -
  have "\<not> isWhitespace (last (toLowerCase (trim h)))" if "toLowerCase (trim h) \<noteq> []"
  proof -
    from that have ne: "trim h \<noteq> []" by (simp add: toLowerCase_def)
    then have "last (toLowerCase (trim h)) = toLower (last (trim h))"
      by (simp add: toLowerCase_def last_map)
    with trim_ends [OF ne] show ?thesis by (simp add: toLower_space)
  qed
  then show ?thesis
    unfolding normalizeHeader_def by (intro replaceSeparators_shape) auto
qed

lemma trim_shape:
  assumes "normalShape r"
  shows "trim r = r"
proof (cases r)
  case Nil
  then show ?thesis by (simp add: trim_def)
next
  case (Cons c cs)
  have l: "\<not> isWhitespace (last r)" using assms Cons by (simp add: normalShape_def)
  have "\<not> isWhitespace c"
  proof (cases cs)
    case Nil
    with l Cons show ?thesis by simp
  next
    case (Cons d ds)
    with assms \<open>r = c # cs\<close> have "isAlnum c" by (simp add: normalShape_def)
    then show ?thesis by (rule alnum_not_space)
  qed
  then have a: "dropWhile isWhitespace r = r" using Cons by simp
  have "rev r = last r # rev (butlast r)" using Cons by (metis append_butlast_last_id list.distinct(1) rev.simps(2) rev_append rev.simps(1) append_Cons append_Nil)
  moreover have "dropWhile isWhitespace (last r # rev (butlast r)) = last r # rev (butlast r)"
    using l by simp
  ultimately have "dropWhile isWhitespace (rev r) = rev r" by (simp only:)
  with a show ?thesis by (simp only: trim_def rev_rev_ident)
qed

lemma replaceSeparators_alnum_prefix:
  "list_all isAlnum a \<Longrightarrow> replaceSeparators [] (a @ s) = a @ replaceSeparators [] s"
  by (induction a) simp_all

lemma replaceSeparators_lower_shape:
  assumes "normalShape r"
  shows "replaceSeparators [] (toLowerCase r) = toLowerCase r"
proof (cases "r = []")
  case True
  then show ?thesis by (simp add: toLowerCase_def)
next
  case False
  then have r: "r = butlast r @ [last r]" by simp
  have a: "list_all isAlnum (map toLower (butlast r))"
    using assms by (simp add: normalShape_def list_all_iff toLower_alnum)
  have "toLowerCase r = map toLower (butlast r) @ [toLower (last r)]"
    unfolding toLowerCase_def by (subst r) simp
  moreover have "replaceSeparators [] [x] = [x]" for x
    by (simp add: endRun_def)
  ultimately show ?thesis
    using replaceSeparators_alnum_prefix [OF a] by simp
qed

lemma toLowerCase_shape:
  assumes "normalShape r"
  shows "normalShape (toLowerCase r)"
proof (cases "r = []")
  case True
  then show ?thesis by (simp add: toLowerCase_def normalShape_def)
next
  case False
  then show ?thesis
    using assms
    by (simp add: toLowerCase_def normalShape_def list_all_iff toLower_alnum toLower_space
        last_map map_butlast [symmetric])
qed

lemma normalize_twice: "normalizeHeader (normalizeHeader h) = toLowerCase (normalizeHeader h)"
proof -
  have s: "normalShape (normalizeHeader h)" by (rule normalizeHeader_shape)
  have "normalizeHeader (normalizeHeader h)
          = replaceSeparators [] (toLowerCase (trim (normalizeHeader h)))"
    by (simp add: normalizeHeader_def)
  also have "\<dots> = replaceSeparators [] (toLowerCase (normalizeHeader h))"
    by (simp only: trim_shape [OF s])
  also have "\<dots> = toLowerCase (normalizeHeader h)"
    by (rule replaceSeparators_lower_shape [OF s])
  finally show ?thesis .
qed

lemma toUpper_ascii: "isAscii c \<Longrightarrow> isAscii (toUpper c)"
  by (auto simp: charDefs isAscii_def)

lemma toLower_ascii: "isAscii c \<Longrightarrow> isAscii (toLower c)"
  by (auto simp: charDefs isAscii_def)

lemma endRun_ascii:
  assumes "list_all isAscii run"
  shows "list_all isAscii (endRun run)"
proof (cases "dropWhile isLineTerminator (rev (tl run))")
  case Nil
  show ?thesis unfolding endRun_def Nil using assms by simp
next
  case (Cons chr rest)
  have "set (dropWhile isLineTerminator (rev (tl run))) \<subseteq> set run"
    using set_dropWhileD [of _ isLineTerminator "rev (tl run)"] list.set_sel(2) [of run]
    by (cases run) auto
  with Cons have "chr \<in> set run" by auto
  then have a: "isAscii (toUpper chr)"
    using assms by (simp add: list_all_iff toUpper_ascii)
  have "set (takeWhile isLineTerminator (rev (tl run))) \<subseteq> set run"
    using set_takeWhileD [of _ isLineTerminator "rev (tl run)"] by (cases run) auto
  then have "list_all isAscii (rev (takeWhile isLineTerminator (rev (tl run))))"
    using assms by (auto simp: list_all_iff)
  with a Cons show ?thesis by (simp add: endRun_def)
qed

lemma replaceSeparators_ascii:
  "list_all isAscii run \<Longrightarrow> list_all isAscii s \<Longrightarrow> list_all isAscii (replaceSeparators run s)"
proof (induction s arbitrary: run)
  case Nil
  then show ?case by (simp add: endRun_ascii)
next
  case (Cons c cs)
  then show ?case by (simp add: toUpper_ascii)
qed

lemma trim_subset: "set (trim s) \<subseteq> set s"
proof -
  have "set (dropWhile isWhitespace (rev (dropWhile isWhitespace s))) \<subseteq> set (dropWhile isWhitespace s)"
    using set_dropWhileD [of _ isWhitespace "rev (dropWhile isWhitespace s)"] by auto
  moreover have "set (dropWhile isWhitespace s) \<subseteq> set s"
    using set_dropWhileD [of _ isWhitespace s] by auto
  ultimately show ?thesis by (auto simp: trim_def)
qed

lemma normalizeHeader_ascii:
  assumes "list_all isAscii h"
  shows "list_all isAscii (normalizeHeader h)"
proof -
  have "list_all isAscii (trim h)"
    using assms trim_subset [of h] by (auto simp: list_all_iff)
  then have "list_all isAscii (toLowerCase (trim h))"
    by (simp add: toLowerCase_def list_all_iff toLower_ascii)
  then show ?thesis
    unfolding normalizeHeader_def by (intro replaceSeparators_ascii) simp_all
qed

text \<open>
  C2, as the claim has it, fails: the header \<open>Payment Date\<close> is normalised to
  \<open>paymentDate\<close>, and normalising that key lower-cases its \<open>D\<close>.
\<close>

theorem normalize_not_idempotent:
  "normalizeHeader ''Payment Date'' = ''paymentDate''
   \<and> normalizeHeader (normalizeHeader ''Payment Date'') = ''paymentdate''
   \<and> normalizeHeader (normalizeHeader ''Payment Date'') \<noteq> normalizeHeader ''Payment Date''"
  by code_simp

text \<open>
  C2, amended: for a header of ASCII characters, the normalised key is of ASCII
  characters, normalising it again lower-cases it and does nothing else, and from the
  second application on the result no longer changes. So such a header is a fixed point
  exactly when its key has no upper-case letter.
\<close>

theorem normalize_twice_lower_cases_ascii:
  assumes "list_all isAscii h"
  shows "list_all isAscii (normalizeHeader h)
   \<and> normalizeHeader (normalizeHeader h) = toLowerCase (normalizeHeader h)
   \<and> normalizeHeader (normalizeHeader (normalizeHeader h)) = normalizeHeader (normalizeHeader h)"
proof -
  have a: "normalizeHeader (normalizeHeader k) = toLowerCase (normalizeHeader k)" for k
    by (rule normalize_twice)
  have l: "toLowerCase (toLowerCase r) = toLowerCase r" for r
    by (simp add: toLowerCase_def toLower_idem)
  have "normalizeHeader (normalizeHeader (normalizeHeader h))
          = toLowerCase (normalizeHeader (normalizeHeader h))"
    by (rule a)
  also have "\<dots> = toLowerCase (toLowerCase (normalizeHeader h))"
    by (simp only: a [of h])
  also have "\<dots> = toLowerCase (normalizeHeader h)"
    by (rule l)
  also have "\<dots> = normalizeHeader (normalizeHeader h)"
    by (simp only: a [of h])
  finally have "normalizeHeader (normalizeHeader (normalizeHeader h))
                  = normalizeHeader (normalizeHeader h)" .
  with a normalizeHeader_ascii [OF assms] show ?thesis by blast
qed

theorem normalize_twice_lower_cases_ascii_witness:
  "list_all isAscii ''Campus Name''
   \<and> normalizeHeader ''Campus Name'' = ''campusName''
   \<and> normalizeHeader (normalizeHeader ''Campus Name'') = toLowerCase (normalizeHeader ''Campus Name'')
   \<and> normalizeHeader (normalizeHeader (normalizeHeader ''Campus Name''))
       = normalizeHeader (normalizeHeader ''Campus Name'')"
proof -
  have h: "list_all isAscii ''Campus Name''"
    by (simp add: isAscii_def)
  have e: "normalizeHeader ''Campus Name'' = ''campusName''"
    by code_simp
  note k = normalize_twice_lower_cases_ascii [OF h]
  show ?thesis
    using h e conjunct1 [OF conjunct2 [OF k]] conjunct2 [OF conjunct2 [OF k]]
    by (intro conjI)
qed

section \<open>Records\<close>

lemma keys_setProp:
  "map fst (setProp k v obj) = (if k \<in> set (map fst obj) then map fst obj else map fst obj @ [k])"
  by (induction obj) auto

lemma map_of_setProp: "map_of (setProp k v obj) = (map_of obj)(k \<mapsto> v)"
  by (induction obj) (auto simp: fun_eq_iff)

lemma entries_setProp: "set (setProp k v obj) \<subseteq> insert (k, v) (set obj)"
  by (induction obj) auto


lemma keys_set_setProp: "fst ` set (setProp k v obj) = insert k (fst ` set obj)"
proof -
  have "set (map fst (setProp k v obj)) = insert k (set (map fst obj))"
    by (simp only: keys_setProp) auto
  then show ?thesis by simp
qed

lemma keys_fold:
  "fst ` set (fold (assignCell vs) (enumerate n hs) obj) = fst ` set obj \<union> set hs"
proof (induction hs arbitrary: n obj)
  case Nil
  then show ?case by simp
next
  case (Cons h hs)
  have "fst ` set (fold (assignCell vs) (enumerate (Suc n) hs) (setProp h (cell vs n) obj))
          = fst ` set (setProp h (cell vs n) obj) \<union> set hs"
    by (rule Cons.IH)
  then show ?case by (simp add: assignCell_def keys_set_setProp)
qed

lemma distinct_setProp: "distinct (map fst obj) \<Longrightarrow> distinct (map fst (setProp k v obj))"
  by (simp only: keys_setProp) simp

lemma distinct_fold:
  "distinct (map fst obj) \<Longrightarrow> distinct (map fst (fold (assignCell vs) (enumerate n hs) obj))"
proof (induction hs arbitrary: n obj)
  case Nil
  then show ?case by simp
next
  case (Cons h hs)
  have "distinct (map fst (setProp h (cell vs n) obj))"
    using Cons.prems by (rule distinct_setProp)
  then have "distinct (map fst (fold (assignCell vs) (enumerate (Suc n) hs) (setProp h (cell vs n) obj)))"
    by (rule Cons.IH)
  then show ?case by (simp add: assignCell_def)
qed

lemma entries_fold:
  "(k, v) \<in> set (fold (assignCell vs) (enumerate n hs) obj) \<Longrightarrow>
     (k, v) \<in> set obj \<or> (\<exists>i. v = cell vs i)"
proof (induction hs arbitrary: n obj)
  case Nil
  then show ?case by simp
next
  case (Cons h hs)
  from Cons.prems have "(k, v) \<in> set (fold (assignCell vs) (enumerate (Suc n) hs) (setProp h (cell vs n) obj))"
    by (simp add: assignCell_def)
  then have "(k, v) \<in> set (setProp h (cell vs n) obj) \<or> (\<exists>i. v = cell vs i)"
    by (rule Cons.IH)
  then show ?case using entries_setProp [of h "cell vs n" obj] by auto
qed

lemma missing_fold:
  "length vs \<le> n \<Longrightarrow>
     map_of (fold (assignCell vs) (enumerate n hs) obj) k = (if k \<in> set hs then Some [] else map_of obj k)"
proof (induction hs arbitrary: n obj)
  case Nil
  then show ?case by simp
next
  case (Cons h hs)
  have "map_of (fold (assignCell vs) (enumerate (Suc n) hs) (setProp h (cell vs n) obj)) k
          = (if k \<in> set hs then Some [] else map_of (setProp h (cell vs n) obj) k)"
    using Cons.prems by (intro Cons.IH) simp
  moreover have "cell vs n = []" using Cons.prems by (simp add: cell_def)
  ultimately show ?case by (simp add: assignCell_def map_of_setProp)
qed

lemma fold_cong_cells:
  "(\<And>i. n \<le> i \<Longrightarrow> i < n + length hs \<Longrightarrow> cell vs i = cell us i) \<Longrightarrow>
     fold (assignCell vs) (enumerate n hs) obj = fold (assignCell us) (enumerate n hs) obj"
proof (induction hs arbitrary: n obj)
  case Nil
  then show ?case by simp
next
  case (Cons h hs)
  have "cell vs n = cell us n" using Cons.prems [of n] by simp
  moreover have "fold (assignCell vs) (enumerate (Suc n) hs) ob = fold (assignCell us) (enumerate (Suc n) hs) ob" for ob
    using Cons.prems by (intro Cons.IH) simp_all
  ultimately show ?case by (simp add: assignCell_def)
qed

lemma reduceRow_keys: "fst ` set (reduceRow hs vs) = set hs"
  by (simp add: reduceRow_def keys_fold)

lemma reduceRow_distinct: "distinct (map fst (reduceRow hs vs))"
  by (simp add: reduceRow_def distinct_fold)

lemma reduceRow_missing:
  assumes "i < length hs" and "length vs \<le> i"
  shows "map_of (reduceRow hs vs) (hs ! i) = Some []"
proof -
  have "enumerate 0 hs = enumerate 0 (take i hs) @ enumerate i (drop i hs)"
    using assms(1) enumerate_append_eq [of 0 "take i hs" "drop i hs"] by (simp add: min_def)
  then have "reduceRow hs vs
      = fold (assignCell vs) (enumerate i (drop i hs)) (fold (assignCell vs) (enumerate 0 (take i hs)) [])"
    by (simp add: reduceRow_def)
  moreover have "hs ! i \<in> set (drop i hs)"
    using assms(1) by (metis Cons_nth_drop_Suc list.set_intros(1))
  ultimately show ?thesis using missing_fold [OF assms(2)] by simp
qed

lemma reduceRow_extra: "reduceRow hs vs = reduceRow hs (take (length hs) vs)"
  unfolding reduceRow_def by (rule fold_cong_cells) (simp add: cell_def)

lemma reduceRow_entries:
  assumes "(k, v) \<in> set (reduceRow hs vs)"
  shows "v = [] \<or> (\<exists>f \<in> set vs. v = removeQuotes (trim f))"
proof -
  from assms have "\<exists>i. v = cell vs i"
    using entries_fold [of k v vs 0 hs "[]"] by (simp add: reduceRow_def)
  then obtain i where i: "v = cell vs i" ..
  show ?thesis
  proof (cases "i < length vs")
    case True
    then have "vs ! i \<in> set vs" by simp
    with True i show ?thesis by (auto simp: cell_def)
  next
    case False
    with i show ?thesis by (simp add: cell_def)
  qed
qed

lemma removeQuotes_no_quote: "CHR 0x22 \<notin> set (removeQuotes s)"
  by (simp add: removeQuotes_def)

lemma parse_rows:
  assumes "parseAndValidateCsv t = Inr data"
  shows "data = csvData (csvLines t)"
  using assms by (simp add: parseAndValidateCsv_def Let_def split: if_splits)

lemma csvData_rows:
  assumes "row \<in> set (csvData lines)"
  shows "\<exists>line \<in> set (drop 1 lines). row = reduceRow (csvHeaders lines) (splitFields [] line)"
  using assms by (auto simp: csvData_def rowOf_def)

lemma hasOwnProperty_reduceRow: "hasOwnProperty (reduceRow hs vs) col = (col \<in> set hs)"
proof -
  have "(map_of (reduceRow hs vs) col \<noteq> None) = (col \<in> fst ` set (reduceRow hs vs))"
    by (simp add: map_of_eq_None_iff)
  then show ?thesis by (simp add: hasOwnProperty_def reduceRow_keys)
qed

text \<open>
  The schema check when no header is normalised to \<open>hasOwnProperty\<close>: the required
  columns that are no header are named, and a header alone, whatever the value under
  it, counts as present.
\<close>

lemma schema_check_without_shadowing:
  assumes "2 \<le> length (csvLines t)"
    and "''hasOwnProperty'' \<notin> set (csvHeaders (csvLines t))"
  shows "parseAndValidateCsv t =
           (if filter (\<lambda>col. col \<notin> set (csvHeaders (csvLines t))) requiredColumns = []
            then Inr (csvData (csvLines t))
            else Inl (MissingColumnsError
                   (filter (\<lambda>col. col \<notin> set (csvHeaders (csvLines t))) requiredColumns)))"
proof -
  have n: "length (csvData (csvLines t)) \<noteq> 0"
    using assms(1) by (simp add: csvData_length)
  then have "csvData (csvLines t) ! 0 \<in> set (csvData (csvLines t))" by simp
  then obtain line where
    r: "csvData (csvLines t) ! 0 = reduceRow (csvHeaders (csvLines t)) (splitFields [] line)"
    using csvData_rows by blast
  have h: "hasOwnProperty (csvData (csvLines t) ! 0) col = (col \<in> set (csvHeaders (csvLines t)))" for col
    by (simp only: r hasOwnProperty_reduceRow)
  show ?thesis
    using assms n by (simp add: parseAndValidateCsv_def Let_def h)
qed

text \<open>
  C9: a record the parser produces has the normalised headers as its keys, each once.
  It is built from one data line: a header at a position the line has no field for is
  given the empty string, and the fields past the last header change nothing.
\<close>

theorem record_keys_are_the_headers:
  assumes "parseAndValidateCsv t = Inr data" and "row \<in> set data"
  shows "set (map fst row) = set (csvHeaders (csvLines t)) \<and> distinct (map fst row)
    \<and> (\<exists>line \<in> set (drop 1 (csvLines t)).
          row = reduceRow (csvHeaders (csvLines t)) (splitFields [] line)
          \<and> (\<forall>i. i < length (csvHeaders (csvLines t)) \<and> length (splitFields [] line) \<le> i
                \<longrightarrow> map_of row (csvHeaders (csvLines t) ! i) = Some [])
          \<and> row = reduceRow (csvHeaders (csvLines t))
                    (take (length (csvHeaders (csvLines t))) (splitFields [] line)))"
proof -
  from assms have "row \<in> set (csvData (csvLines t))"
    using parse_rows by blast
  then obtain line where l: "line \<in> set (drop 1 (csvLines t))"
    and r: "row = reduceRow (csvHeaders (csvLines t)) (splitFields [] line)"
    using csvData_rows by blast
  have "set (map fst row) = set (csvHeaders (csvLines t))"
    by (simp add: r reduceRow_keys)
  moreover have "distinct (map fst row)"
    by (simp only: r reduceRow_distinct)
  moreover have "map_of row (csvHeaders (csvLines t) ! i) = Some []"
    if "i < length (csvHeaders (csvLines t))" and "length (splitFields [] line) \<le> i" for i
    using that by (simp only: r reduceRow_missing)
  moreover have "row = reduceRow (csvHeaders (csvLines t))
                    (take (length (csvHeaders (csvLines t))) (splitFields [] line))"
    unfolding r by (rule reduceRow_extra)
  ultimately show ?thesis using l r by blast
qed

theorem record_keys_are_the_headers_witness:
  "parseAndValidateCsv (sheetHeader @ [CHR 0x0A] @ ''Jane,100,U1,2024-01-05,Main''
       @ [CHR 0x0A] @ ''Ravi,250,U2,2024-01-06,East,http://x/r.png,extra,more'')
     = Inr [[(''name'', ''Jane''), (''amount'', ''100''), (''utr'', ''U1''),
             (''paymentDate'', ''2024-01-05''), (''campusName'', ''Main''),
             (''paymentScreenshotUrl'', [])],
            [(''name'', ''Ravi''), (''amount'', ''250''), (''utr'', ''U2''),
             (''paymentDate'', ''2024-01-06''), (''campusName'', ''East''),
             (''paymentScreenshotUrl'', ''http://x/r.png'')]]
   \<and> set (map fst [(''name'', ''Ravi''), (''amount'', ''250''), (''utr'', ''U2''),
             (''paymentDate'', ''2024-01-06''), (''campusName'', ''East''),
             (''paymentScreenshotUrl'', ''http://x/r.png'')])
       = set (csvHeaders (csvLines (sheetHeader @ [CHR 0x0A] @ ''Jane,100,U1,2024-01-05,Main''
       @ [CHR 0x0A] @ ''Ravi,250,U2,2024-01-06,East,http://x/r.png,extra,more'')))"
proof -
  have h: "parseAndValidateCsv (sheetHeader @ [CHR 0x0A] @ ''Jane,100,U1,2024-01-05,Main''
       @ [CHR 0x0A] @ ''Ravi,250,U2,2024-01-06,East,http://x/r.png,extra,more'')
     = Inr [[(''name'', ''Jane''), (''amount'', ''100''), (''utr'', ''U1''),
             (''paymentDate'', ''2024-01-05''), (''campusName'', ''Main''),
             (''paymentScreenshotUrl'', [])],
            [(''name'', ''Ravi''), (''amount'', ''250''), (''utr'', ''U2''),
             (''paymentDate'', ''2024-01-06''), (''campusName'', ''East''),
             (''paymentScreenshotUrl'', ''http://x/r.png'')]]"
    by code_simp
  show ?thesis
    using h record_keys_are_the_headers [OF h, of "[(''name'', ''Ravi''), (''amount'', ''250''), (''utr'', ''U2''),
             (''paymentDate'', ''2024-01-06''), (''campusName'', ''East''),
             (''paymentScreenshotUrl'', ''http://x/r.png'')]"]
    by (simp del: set_map)
qed

text \<open>
  C7, as the claim has it, fails: of the field \<open>"Jane "JD" Doe"\<close> the source keeps
  \<open>Jane JD Doe\<close>, the quotes around \<open>JD\<close> gone with the surrounding ones; and of
  \<open>" Jane "\<close> it keeps the blanks within the quotes, since it trims before it removes
  the quotes.
\<close>

theorem interior_quotes_are_removed:
  "cell [[CHR 0x22] @ ''Jane '' @ [CHR 0x22] @ ''JD'' @ [CHR 0x22] @ '' Doe'' @ [CHR 0x22]] 0
     = ''Jane JD Doe''
   \<and> fieldAsSpecified ([CHR 0x22] @ ''Jane '' @ [CHR 0x22] @ ''JD'' @ [CHR 0x22] @ '' Doe'' @ [CHR 0x22])
     = ''Jane '' @ [CHR 0x22] @ ''JD'' @ [CHR 0x22] @ '' Doe''
   \<and> csvData (csvLines (''name,amount'' @ [CHR 0x0A, CHR 0x22] @ ''Jane '' @ [CHR 0x22] @ ''JD''
                         @ [CHR 0x22] @ '' Doe'' @ [CHR 0x22] @ '',100''))
     = [[(''name'', ''Jane JD Doe''), (''amount'', ''100'')]]
   \<and> cell [[CHR 0x22] @ '' Jane '' @ [CHR 0x22]] 0 = '' Jane ''
   \<and> fieldAsSpecified ([CHR 0x22] @ '' Jane '' @ [CHR 0x22]) = ''Jane''"
  by code_simp

text \<open>
  C7, amended: a value of a parsed record is the empty string, or a field of its data
  line trimmed and then with every double quote removed, those inside the field as
  well; so no value holds a double quote.
\<close>

theorem values_hold_no_quote:
  assumes "parseAndValidateCsv t = Inr data" and "row \<in> set data" and "(k, v) \<in> set row"
  shows "CHR 0x22 \<notin> set v
    \<and> (v = [] \<or> (\<exists>line \<in> set (drop 1 (csvLines t)). \<exists>f \<in> set (splitFields [] line).
                     v = removeQuotes (trim f)))"
proof -
  from assms(1,2) have "row \<in> set (csvData (csvLines t))"
    using parse_rows by blast
  then obtain line where l: "line \<in> set (drop 1 (csvLines t))"
    and r: "row = reduceRow (csvHeaders (csvLines t)) (splitFields [] line)"
    using csvData_rows by blast
  from assms(3) have v: "v = [] \<or> (\<exists>f \<in> set (splitFields [] line). v = removeQuotes (trim f))"
    unfolding r by (rule reduceRow_entries)
  then have "CHR 0x22 \<notin> set v"
    using removeQuotes_no_quote by auto
  with v l show ?thesis by blast
qed

theorem values_hold_no_quote_witness:
  "parseAndValidateCsv (sheetHeader @ [CHR 0x0A, CHR 0x22] @ ''Jane '' @ [CHR 0x22] @ ''JD''
        @ [CHR 0x22] @ '' Doe'' @ [CHR 0x22] @ '',100,U1,2024-01-05,Main,http://x/j.png'')
     = Inr [[(''name'', ''Jane JD Doe''), (''amount'', ''100''), (''utr'', ''U1''),
             (''paymentDate'', ''2024-01-05''), (''campusName'', ''Main''),
             (''paymentScreenshotUrl'', ''http://x/j.png'')]]
   \<and> CHR 0x22 \<notin> set ''Jane JD Doe''"
proof -
  have h: "parseAndValidateCsv (sheetHeader @ [CHR 0x0A, CHR 0x22] @ ''Jane '' @ [CHR 0x22] @ ''JD''
        @ [CHR 0x22] @ '' Doe'' @ [CHR 0x22] @ '',100,U1,2024-01-05,Main,http://x/j.png'')
     = Inr [[(''name'', ''Jane JD Doe''), (''amount'', ''100''), (''utr'', ''U1''),
             (''paymentDate'', ''2024-01-05''), (''campusName'', ''Main''),
             (''paymentScreenshotUrl'', ''http://x/j.png'')]]"
    by code_simp
  have "CHR 0x22 \<notin> set ''Jane JD Doe''"
    using values_hold_no_quote [OF h, of "[(''name'', ''Jane JD Doe''), (''amount'', ''100''), (''utr'', ''U1''),
             (''paymentDate'', ''2024-01-05''), (''campusName'', ''Main''),
             (''paymentScreenshotUrl'', ''http://x/j.png'')]" "''name''" "''Jane JD Doe''"]
    by simp
  with h show ?thesis by blast
qed

section \<open>The run\<close>

lemma loopBody_pushed:
  assumes "\<not> (index = 0 \<and> credentialFailure c row w)"
  shows "loopBody c index row w = (Pushed (recordOutcome c row w), worldAfter c row w)"
proof (cases "tryRow c row w")
  case (Pair a w1)
  obtain ts w2 where t: "newTimestamp c w1 = (ts, w2)" by (cases "newTimestamp c w1")
  show ?thesis
  proof (cases a)
    case (Inl err)
    with assms Pair t show ?thesis
      by (auto simp: loopBody_def recordOutcome_def worldAfter_def credentialFailure_def Let_def)
  next
    case (Inr v)
    with Pair t show ?thesis
      by (simp add: loopBody_def recordOutcome_def worldAfter_def)
  qed
qed

lemma loopBody_stopped:
  assumes "credentialFailure c row w"
  shows "loopBody c 0 row w =
           (Stopped
              (''Critical Error: '' @ failureMessage c row w
                 @ '' Processing has been stopped. Please check your application configuration.'')
              \<lparr>originalData = row, validation = None,
               error = Some (''Processing stopped due to critical error: '' @ failureMessage c row w),
               timestamp = fst (newTimestamp c (snd (tryRow c row w)))\<rparr>,
            worldAfter c row w)"
proof (cases "tryRow c row w")
  case (Pair a w1)
  obtain ts w2 where t: "newTimestamp c w1 = (ts, w2)" by (cases "newTimestamp c w1")
  show ?thesis
  proof (cases a)
    case (Inl err)
    with assms Pair t show ?thesis
      by (simp add: loopBody_def failureMessage_def worldAfter_def credentialFailure_def Let_def)
  next
    case (Inr v)
    with assms Pair show ?thesis by (simp add: credentialFailure_def)
  qed
qed

lemma isolatedRun_Cons:
  "fst (isolatedRun c (row # rest) w)
     = recordOutcome c row w # fst (isolatedRun c rest (worldAfter c row w))"
  "snd (isolatedRun c (row # rest) w) = snd (isolatedRun c rest (worldAfter c row w))"
  by (simp_all split: prod.splits)

lemma recordOutcome_originalData: "originalData (recordOutcome c row w) = row"
  by (simp add: recordOutcome_def split: sum.splits)

lemma isolatedRun_length: "length (fst (isolatedRun c rows w)) = length rows"
  by (induction rows arbitrary: w) (simp_all add: isolatedRun_Cons del: isolatedRun.simps(2))

lemma isolatedRun_originalData: "map originalData (fst (isolatedRun c rows w)) = rows"
  by (induction rows arbitrary: w)
    (simp_all add: isolatedRun_Cons recordOutcome_originalData del: isolatedRun.simps(2))

lemma isolatedRun_outcomes:
  "r \<in> set (fst (isolatedRun c rows w)) \<Longrightarrow> \<exists>row \<in> set rows. \<exists>w'. r = recordOutcome c row w'"
proof (induction rows arbitrary: w)
  case Nil
  then show ?case by simp
next
  case (Cons row rest)
  from Cons.prems have "r = recordOutcome c row w \<or> r \<in> set (fst (isolatedRun c rest (worldAfter c row w)))"
    by (simp only: isolatedRun_Cons set_ConsD list.set insert_iff)
  then show ?case using Cons.IH by auto
qed

lemma processRows_isolated:
  assumes "0 < index"
  shows "processRows c n index rows acc s w =
           (s\<lparr>progress := (if rows = [] then progress s else (index + length rows, n)),
              results := (if rows = [] then results s else acc @ fst (isolatedRun c rows w)),
              isLoading := False\<rparr>,
            snd (isolatedRun c rows w))"
  using assms
proof (induction rows arbitrary: index acc s w)
  case Nil
  then show ?case by simp
next
  case (Cons row rest)
  have b: "loopBody c index row w = (Pushed (recordOutcome c row w), worldAfter c row w)"
    using Cons.prems by (intro loopBody_pushed) simp
  have "processRows c n (index + 1) rest (acc @ [recordOutcome c row w])
          (s\<lparr>progress := (index + 1, n), results := acc @ [recordOutcome c row w]\<rparr>) (worldAfter c row w)
        = ((s\<lparr>progress := (index + 1, n), results := acc @ [recordOutcome c row w]\<rparr>)
             \<lparr>progress := (if rest = [] then progress (s\<lparr>progress := (index + 1, n), results := acc @ [recordOutcome c row w]\<rparr>) else (index + 1 + length rest, n)),
              results := (if rest = [] then results (s\<lparr>progress := (index + 1, n), results := acc @ [recordOutcome c row w]\<rparr>) else (acc @ [recordOutcome c row w]) @ fst (isolatedRun c rest (worldAfter c row w))),
              isLoading := False\<rparr>,
            snd (isolatedRun c rest (worldAfter c row w)))"
    by (rule Cons.IH) simp
  then show ?case using b by (simp add: isolatedRun_Cons del: isolatedRun.simps(2))
qed

lemma handleProcessData_stopped:
  assumes "processedData s = row0 # rest" and "credentialFailure c row0 w"
  shows "handleProcessData c s w =
           (s\<lparr>isLoading := False,
              errorState := Some (''Critical Error: '' @ failureMessage c row0 w
                 @ '' Processing has been stopped. Please check your application configuration.''),
              results := [\<lparr>originalData = row0, validation = None,
                 error = Some (''Processing stopped due to critical error: '' @ failureMessage c row0 w),
                 timestamp = fst (newTimestamp c (snd (tryRow c row0 w)))\<rparr>],
              progress := (1, Suc (length rest))\<rparr>,
            worldAfter c row0 w)"
  using assms by (simp add: handleProcessData_def loopBody_stopped)

lemma handleProcessData_completed:
  assumes "processedData s = row0 # rest" and "\<not> credentialFailure c row0 w"
  shows "handleProcessData c s w =
           (s\<lparr>isLoading := False, errorState := None,
              results := fst (isolatedRun c (row0 # rest) w),
              progress := (Suc (length rest), Suc (length rest))\<rparr>,
            snd (isolatedRun c (row0 # rest) w))"
proof -
  have b: "loopBody c 0 row0 w = (Pushed (recordOutcome c row0 w), worldAfter c row0 w)"
    using assms(2) by (intro loopBody_pushed) simp
  show ?thesis
    using assms(1) b
    by (simp add: handleProcessData_def processRows_isolated isolatedRun_Cons
        del: isolatedRun.simps(2))
qed

text \<open>
  C1: a run over a record sequence that is not empty. If the first record fails with a
  message that includes \<open>Invalid API Key\<close>, the run ends there: the outcome list is
  that one failure, its message after \<open>Processing stopped due to critical error\<close>, the
  progress stays at the first record, and the world is the one that processing the first
  record alone leaves, so no later record was attempted. Otherwise the run is the
  isolated run, whatever the later records do, a credential failure among them
  included: each record is processed in the world the one before it left, and the
  outcome list has one outcome per record, in the order of the records.
\<close>

theorem short_circuit_only_at_first_record:
  assumes "processedData s = row0 # rest"
  shows "(credentialFailure c row0 w \<longrightarrow>
            handleProcessData c s w =
              (s\<lparr>isLoading := False,
                 errorState := Some (''Critical Error: '' @ failureMessage c row0 w
                    @ '' Processing has been stopped. Please check your application configuration.''),
                 results := [\<lparr>originalData = row0, validation = None,
                    error = Some (''Processing stopped due to critical error: '' @ failureMessage c row0 w),
                    timestamp = fst (newTimestamp c (snd (tryRow c row0 w)))\<rparr>],
                 progress := (1, Suc (length rest))\<rparr>,
               worldAfter c row0 w))
       \<and> (\<not> credentialFailure c row0 w \<longrightarrow>
            handleProcessData c s w =
              (s\<lparr>isLoading := False, errorState := None,
                 results := fst (isolatedRun c (row0 # rest) w),
                 progress := (Suc (length rest), Suc (length rest))\<rparr>,
               snd (isolatedRun c (row0 # rest) w))
            \<and> length (results (fst (handleProcessData c s w))) = Suc (length rest)
            \<and> map originalData (results (fst (handleProcessData c s w))) = row0 # rest)"
proof (intro conjI impI)
  assume "credentialFailure c row0 w"
  with assms show "handleProcessData c s w =
              (s\<lparr>isLoading := False,
                 errorState := Some (''Critical Error: '' @ failureMessage c row0 w
                    @ '' Processing has been stopped. Please check your application configuration.''),
                 results := [\<lparr>originalData = row0, validation = None,
                    error = Some (''Processing stopped due to critical error: '' @ failureMessage c row0 w),
                    timestamp = fst (newTimestamp c (snd (tryRow c row0 w)))\<rparr>],
                 progress := (1, Suc (length rest))\<rparr>,
               worldAfter c row0 w)"
    by (rule handleProcessData_stopped)
next
  assume n: "\<not> credentialFailure c row0 w"
  with assms show h: "handleProcessData c s w =
              (s\<lparr>isLoading := False, errorState := None,
                 results := fst (isolatedRun c (row0 # rest) w),
                 progress := (Suc (length rest), Suc (length rest))\<rparr>,
               snd (isolatedRun c (row0 # rest) w))"
    by (rule handleProcessData_completed)
  show "length (results (fst (handleProcessData c s w))) = Suc (length rest)"
    by (simp only: h fst_conv) (simp add: isolatedRun_length del: isolatedRun.simps)
  show "map originalData (results (fst (handleProcessData c s w))) = row0 # rest"
    by (simp only: h fst_conv) (simp add: isolatedRun_originalData del: isolatedRun.simps)
qed

theorem short_circuit_only_at_first_record_witness:
  "credentialFailure exampleCollaborators (exampleRow ''Eve'' ''u0'') []
   \<and> results (fst (handleProcessData exampleCollaborators
        (exampleState [exampleRow ''Eve'' ''u0'', exampleRow ''Bob'' ''u1'', exampleRow ''Cy'' ''u2'']) []))
       = [\<lparr>originalData = exampleRow ''Eve'' ''u0'', validation = None,
           error = Some ''Processing stopped due to critical error: Invalid API Key provided.'',
           timestamp = ''2024-01-05 10:20:30''\<rparr>]
   \<and> snd (handleProcessData exampleCollaborators
        (exampleState [exampleRow ''Eve'' ''u0'', exampleRow ''Bob'' ''u1'', exampleRow ''Cy'' ''u2'']) [])
       = [''fetch u0'', ''validate Eve'']
   \<and> \<not> credentialFailure exampleCollaborators (exampleRow ''Bob'' ''u0'') []
   \<and> credentialFailure exampleCollaborators (exampleRow ''Eve'' ''u1'') [''fetch u0'', ''validate Bob'']
   \<and> length (results (fst (handleProcessData exampleCollaborators
        (exampleState [exampleRow ''Bob'' ''u0'', exampleRow ''Eve'' ''u1'', exampleRow ''Cy'' ''u2'']) [])))
       = 3
   \<and> snd (handleProcessData exampleCollaborators
        (exampleState [exampleRow ''Bob'' ''u0'', exampleRow ''Eve'' ''u1'', exampleRow ''Cy'' ''u2'']) [])
       = [''fetch u0'', ''validate Bob'', ''fetch u1'', ''validate Eve'', ''fetch u2'', ''validate Cy'']"
proof -
  let ?c = exampleCollaborators
  let ?a = "exampleState [exampleRow ''Eve'' ''u0'', exampleRow ''Bob'' ''u1'', exampleRow ''Cy'' ''u2'']"
  let ?b = "exampleState [exampleRow ''Bob'' ''u0'', exampleRow ''Eve'' ''u1'', exampleRow ''Cy'' ''u2'']"
  have pa: "processedData ?a = exampleRow ''Eve'' ''u0'' # [exampleRow ''Bob'' ''u1'', exampleRow ''Cy'' ''u2'']"
    by (simp add: exampleState_def)
  have pb: "processedData ?b = exampleRow ''Bob'' ''u0'' # [exampleRow ''Eve'' ''u1'', exampleRow ''Cy'' ''u2'']"
    by (simp add: exampleState_def)
  have ca: "credentialFailure ?c (exampleRow ''Eve'' ''u0'') []"
    by code_simp
  have cb: "\<not> credentialFailure ?c (exampleRow ''Bob'' ''u0'') []"
    by code_simp
  have cb1: "credentialFailure ?c (exampleRow ''Eve'' ''u1'') [''fetch u0'', ''validate Bob'']"
    by code_simp
  have m: "failureMessage ?c (exampleRow ''Eve'' ''u0'') [] = ''Invalid API Key provided.''"
    by code_simp
  have t: "fst (newTimestamp ?c (snd (tryRow ?c (exampleRow ''Eve'' ''u0'') []))) = ''2024-01-05 10:20:30''"
    by code_simp
  have wa: "worldAfter ?c (exampleRow ''Eve'' ''u0'') [] = [''fetch u0'', ''validate Eve'']"
    by code_simp
  have wb: "snd (isolatedRun ?c (exampleRow ''Bob'' ''u0'' # [exampleRow ''Eve'' ''u1'', exampleRow ''Cy'' ''u2'']) [])
      = [''fetch u0'', ''validate Bob'', ''fetch u1'', ''validate Eve'', ''fetch u2'', ''validate Cy'']"
    by code_simp
  note a = conjunct1 [OF short_circuit_only_at_first_record [OF pa, of ?c "[]"], THEN mp, OF ca]
  have a1: "results (fst (handleProcessData ?c ?a []))
       = [\<lparr>originalData = exampleRow ''Eve'' ''u0'', validation = None,
           error = Some ''Processing stopped due to critical error: Invalid API Key provided.'',
           timestamp = ''2024-01-05 10:20:30''\<rparr>]"
    by (simp only: a fst_conv m t) simp
  have a2: "snd (handleProcessData ?c ?a []) = [''fetch u0'', ''validate Eve'']"
    by (simp only: a snd_conv wa)
  note k = conjunct2 [OF short_circuit_only_at_first_record [OF pb, of ?c "[]"], THEN mp, OF cb]
  note b = conjunct1 [OF k]
  note b1 = conjunct1 [OF conjunct2 [OF k]]
  have b2: "snd (handleProcessData ?c ?b [])
      = [''fetch u0'', ''validate Bob'', ''fetch u1'', ''validate Eve'', ''fetch u2'', ''validate Cy'']"
    by (simp only: b snd_conv wb)
  have b3: "length (results (fst (handleProcessData ?c ?b []))) = 3"
    using b1 by simp
  show ?thesis using ca cb cb1 a1 a2 b2 b3 by (intro conjI)
qed

lemma recordOutcome_one_of:
  "(validation (recordOutcome c row w) = None) \<noteq> (error (recordOutcome c row w) = None)"
  by (simp add: recordOutcome_def split: sum.splits)

lemma recordOutcome_timestamp:
  "timestamp (recordOutcome c row w) = fst (newTimestamp c (snd (tryRow c row w)))"
  by (simp add: recordOutcome_def split: sum.splits)

text \<open>
  C8: every outcome of the list a run publishes has a verdict or an error and not both,
  the record it was made from, which is a record of the run, and a time stamp taken from
  the clock. The list is that of the short circuit or that of the completed run.
\<close>

theorem every_outcome_is_verdict_or_error:
  assumes "processedData s \<noteq> []" and "r \<in> set (results (fst (handleProcessData c s w)))"
  shows "(validation r = None) \<noteq> (error r = None)
         \<and> originalData r \<in> set (processedData s)
         \<and> (\<exists>w'. timestamp r = fst (newTimestamp c w'))"
proof -
  from assms(1) obtain row0 rest where p: "processedData s = row0 # rest"
    by (cases "processedData s") auto
  show ?thesis
  proof (cases "credentialFailure c row0 w")
    case True
    from assms(2) have "r = \<lparr>originalData = row0, validation = None,
        error = Some (''Processing stopped due to critical error: '' @ failureMessage c row0 w),
        timestamp = fst (newTimestamp c (snd (tryRow c row0 w)))\<rparr>"
      by (simp add: handleProcessData_stopped [OF p True])
    then show ?thesis using p by auto
  next
    case False
    from assms(2) have "r \<in> set (fst (isolatedRun c (row0 # rest) w))"
      by (simp add: handleProcessData_completed [OF p False] del: isolatedRun.simps)
    from isolatedRun_outcomes [OF this]
    obtain row w' where "row \<in> set (row0 # rest)" and "r = recordOutcome c row w'"
      by (elim bexE exE)
    then show ?thesis
      using p recordOutcome_one_of [of c row w'] recordOutcome_timestamp [of c row w']
        recordOutcome_originalData [of c row w']
      by auto
  qed
qed

theorem every_outcome_is_verdict_or_error_witness:
  "results (fst (handleProcessData exampleCollaborators
        (exampleState [exampleRow ''Bob'' ''u0'', exampleRow ''Eve'' ''u1'', exampleRow ''Cy'' ''u2'']) []))
     = [\<lparr>originalData = exampleRow ''Bob'' ''u0'', validation = Some exampleVerdict, error = None,
         timestamp = ''2024-01-05 10:20:30''\<rparr>,
        \<lparr>originalData = exampleRow ''Eve'' ''u1'', validation = None,
         error = Some ''Invalid API Key provided.'', timestamp = ''2024-01-05 10:20:30''\<rparr>,
        \<lparr>originalData = exampleRow ''Cy'' ''u2'', validation = Some exampleVerdict, error = None,
         timestamp = ''2024-01-05 10:20:30''\<rparr>]
   \<and> (validation \<lparr>originalData = exampleRow ''Eve'' ''u1'', validation = None,
         error = Some ''Invalid API Key provided.'', timestamp = ''2024-01-05 10:20:30''\<rparr> = None)
       \<noteq> (error \<lparr>originalData = exampleRow ''Eve'' ''u1'', validation = None,
         error = Some ''Invalid API Key provided.'', timestamp = ''2024-01-05 10:20:30''\<rparr> = None)
   \<and> exampleRow ''Eve'' ''u1'' \<in> set [exampleRow ''Bob'' ''u0'', exampleRow ''Eve'' ''u1'', exampleRow ''Cy'' ''u2'']"
proof -
  let ?c = exampleCollaborators
  let ?b = "exampleState [exampleRow ''Bob'' ''u0'', exampleRow ''Eve'' ''u1'', exampleRow ''Cy'' ''u2'']"
  let ?o = "\<lparr>originalData = exampleRow ''Eve'' ''u1'', validation = None,
         error = Some ''Invalid API Key provided.'', timestamp = ''2024-01-05 10:20:30''\<rparr>"
  have e: "results (fst (handleProcessData ?c ?b []))
     = [\<lparr>originalData = exampleRow ''Bob'' ''u0'', validation = Some exampleVerdict, error = None,
         timestamp = ''2024-01-05 10:20:30''\<rparr>,
        ?o,
        \<lparr>originalData = exampleRow ''Cy'' ''u2'', validation = Some exampleVerdict, error = None,
         timestamp = ''2024-01-05 10:20:30''\<rparr>]"
    by code_simp
  have n: "processedData ?b \<noteq> []"
    by (simp add: exampleState_def)
  have m: "?o \<in> set (results (fst (handleProcessData ?c ?b [])))"
    by (simp only: e) simp
  have p: "processedData ?b = [exampleRow ''Bob'' ''u0'', exampleRow ''Eve'' ''u1'', exampleRow ''Cy'' ''u2'']"
    by (simp add: exampleState_def)
  note k = every_outcome_is_verdict_or_error [OF n m]
  have k1: "(validation ?o = None) \<noteq> (error ?o = None)"
    by (rule conjunct1 [OF k])
  have k2: "originalData ?o \<in> set (processedData ?b)"
    by (rule conjunct1 [OF conjunct2 [OF k]])
  have k3: "exampleRow ''Eve'' ''u1'' \<in> set [exampleRow ''Bob'' ''u0'', exampleRow ''Eve'' ''u1'', exampleRow ''Cy'' ''u2'']"
    using k2 by (simp only: p ProcessingResult.select_convs)
  show ?thesis using e k1 k3 by (intro conjI)
qed

end
